theory Spec2Isabelle
  imports Main "HOL-Library.Word"
begin

section \<open>Values of the Ficus runtime\<close>

text \<open>
  The generated module \<^verbatim>\<open>Hashmap.c\<close> works on the native integer \<^verbatim>\<open>int_\<close> and on
  the arrays \<^verbatim>\<open>fx_arr_t\<close> of the runtime. The header \<^verbatim>\<open>ficus/ficus.h\<close> that declares
  them, and the runtime functions behind it, are not among the sources.
\<close>

text \<open>
  Modelled from the spec: the type \<^verbatim>\<open>int_\<close> of \<^verbatim>\<open>ficus.h\<close> is missing. It is the
  signed native word ("native-word signed cells"), taken here as 64 bits wide; \<open>sint\<close>
  reads it.
\<close>

type_synonym int_t = "64 word"

type_synonym addr = nat

text \<open>
  The status codes the functions return. \<open>Undefined_Access\<close> is not a status of the
  runtime: it marks a run in which the C code would read or write storage that is not
  there, or that holds cells of another type (undefined behaviour in C).
\<close>

datatype fx_exn =
    FX_EXN_IOError
  | FX_EXN_NoMatchError
  | FX_EXN_OutOfMemError
  | FX_EXN_OutOfRangeError
  | Undefined_Access

text \<open>
  The storage behind an array: a reference count and the cells, typed by the element
  type the array was made with (\<^verbatim>\<open>uint8_t\<close>, \<^verbatim>\<open>uint16_t\<close> or \<^verbatim>\<open>int_\<close>).
\<close>

datatype elems =
    ByteElems "8 word list"
  | WordElems "16 word list"
  | LargeElems "int_t list"

record block =
  rc :: nat
  elems :: elems

type_synonym heap = "addr \<rightharpoonup> block"

text \<open>
  Modelled from the spec: the struct \<^verbatim>\<open>fx_arr_t\<close> of \<^verbatim>\<open>ficus.h\<close> is missing. Of a
  one-dimensional array the module uses the pointer \<^verbatim>\<open>data\<close> to the "contiguous ordered
  sequence" of cells (\<open>None\<close> is the null pointer of \<^verbatim>\<open>fx_arr_t v = {0}\<close>) and the
  length \<^verbatim>\<open>dim[0].size\<close>.
\<close>

record fx_arr_t =
  data :: "addr option"
  dim0_size :: int_t

definition null_arr :: fx_arr_t where
  "null_arr = \<lparr>data = None, dim0_size = 0\<rparr>"

text \<open>
  \<^verbatim>\<open>struct _fx_N16Hashmap__index_t\<close>: the tag and a union of three members that are
  all of type \<^verbatim>\<open>fx_arr_t\<close>, hence one field \<open>u\<close>.
\<close>

record index_t =
  tag :: "32 word"
  u :: fx_arr_t

subsection \<open>Runtime primitives used by the module\<close>

text \<open>
  Modelled from the spec: the macro \<^verbatim>\<open>FX_ARR_SIZE\<close> of \<^verbatim>\<open>ficus.h\<close> is missing. It
  is the \<open>length\<close> of the array that \<open>size\<close> returns.
\<close>

definition FX_ARR_SIZE :: "fx_arr_t \<Rightarrow> int_t" where
  "FX_ARR_SIZE arr = dim0_size arr"

text \<open>
  Modelled from the spec: the macros \<^verbatim>\<open>FX_CHKIDX\<close> and \<^verbatim>\<open>FX_CHKIDX1\<close> of
  \<^verbatim>\<open>ficus.h\<close> are missing. The check "validates \<open>0 \<le> i < length\<close>"; when it fails,
  \<^verbatim>\<open>FX_CHKIDX\<close> leaves for the given label with the out-of-range condition.
\<close>

definition FX_CHKIDX1 :: "fx_arr_t \<Rightarrow> int_t \<Rightarrow> bool" where
  "FX_CHKIDX1 arr i \<longleftrightarrow> 0 \<le> sint i \<and> sint i < sint (dim0_size arr)"

text \<open>
  Modelled from the spec: the runtime function \<^verbatim>\<open>fx_make_arr\<close> is missing. It
  allocates a backing store of the requested number of cells of the given element size,
  or fails with the out-of-memory condition. Whether the allocation succeeds, where the
  new storage lies and what it holds before the module writes to it are not decided by
  the module: they are the argument \<open>al\<close> (\<open>None\<close>: the allocation fails; \<open>place\<close>: the
  address of the new storage; \<open>junk\<close>: its contents).
\<close>

datatype elemtype = T_uint8 | T_uint16 | T_int

record fresh =
  place :: addr
  junk :: "nat \<Rightarrow> int_t"

definition raw_elems :: "elemtype \<Rightarrow> (nat \<Rightarrow> int_t) \<Rightarrow> nat \<Rightarrow> elems" where
  "raw_elems ty g n =
     (case ty of
        T_uint8 \<Rightarrow> ByteElems (map (\<lambda>k. ucast (g k)) [0..<n])
      | T_uint16 \<Rightarrow> WordElems (map (\<lambda>k. ucast (g k)) [0..<n])
      | T_int \<Rightarrow> LargeElems (map g [0..<n]))"

definition fx_make_arr ::
  "fresh option \<Rightarrow> int_t \<Rightarrow> elemtype \<Rightarrow> heap \<Rightarrow> fx_exn + (fx_arr_t \<times> heap)" where
  "fx_make_arr al n ty h =
     (case al of
        None \<Rightarrow> Inl FX_EXN_OutOfMemError
      | Some f \<Rightarrow>
          Inr (\<lparr>data = Some (place f), dim0_size = n\<rparr>,
               h(place f \<mapsto> \<lparr>rc = 1, elems = raw_elems ty (junk f) (nat (sint n))\<rparr>)))"

text \<open>
  Modelled from the spec: the runtime function \<^verbatim>\<open>fx_copy_arr\<close> is missing. The spec
  has a container own its storage until the owner releases it; the model counts the
  owners of a block: \<open>fx_copy_arr\<close> makes a second reference to the same storage and
  counts it. A null array has nothing to count.
\<close>

definition fx_copy_arr :: "fx_arr_t \<Rightarrow> heap \<Rightarrow> fx_arr_t \<times> heap" where
  "fx_copy_arr src h =
     (case data src of
        None \<Rightarrow> (src, h)
      | Some a \<Rightarrow>
          (case h a of
             None \<Rightarrow> (src, h)
           | Some b \<Rightarrow> (src, h(a \<mapsto> b\<lparr>rc := rc b + 1\<rparr>))))"

text \<open>
  Modelled from the spec: the macro \<^verbatim>\<open>FX_FREE_ARR\<close> and the runtime function
  \<^verbatim>\<open>fx_free_arr\<close> are missing. They drop one reference and release the storage with
  the last one ("destroyed when the owning table releases it").
\<close>

definition fx_free_arr :: "fx_arr_t \<Rightarrow> heap \<Rightarrow> heap" where
  "fx_free_arr arr h =
     (case data arr of
        None \<Rightarrow> h
      | Some a \<Rightarrow>
          (case h a of
             None \<Rightarrow> h
           | Some b \<Rightarrow> if rc b \<le> 1 then h(a := None) else h(a \<mapsto> b\<lparr>rc := rc b - 1\<rparr>)))"

text \<open>
  The cells an array points to, read as cells of one element type (\<open>None\<close>: there is no
  such storage), and the same storage with new cells. A null array has no cells.
\<close>

definition bytes_at :: "heap \<Rightarrow> fx_arr_t \<Rightarrow> 8 word list option" where
  "bytes_at h arr =
     (case data arr of
        None \<Rightarrow> Some []
      | Some a \<Rightarrow>
          (case h a of
             None \<Rightarrow> None
           | Some b \<Rightarrow> (case elems b of ByteElems xs \<Rightarrow> Some xs | _ \<Rightarrow> None)))"

definition words_at :: "heap \<Rightarrow> fx_arr_t \<Rightarrow> 16 word list option" where
  "words_at h arr =
     (case data arr of
        None \<Rightarrow> Some []
      | Some a \<Rightarrow>
          (case h a of
             None \<Rightarrow> None
           | Some b \<Rightarrow> (case elems b of WordElems xs \<Rightarrow> Some xs | _ \<Rightarrow> None)))"

definition larges_at :: "heap \<Rightarrow> fx_arr_t \<Rightarrow> int_t list option" where
  "larges_at h arr =
     (case data arr of
        None \<Rightarrow> Some []
      | Some a \<Rightarrow>
          (case h a of
             None \<Rightarrow> None
           | Some b \<Rightarrow> (case elems b of LargeElems xs \<Rightarrow> Some xs | _ \<Rightarrow> None)))"

definition put_elems :: "heap \<Rightarrow> fx_arr_t \<Rightarrow> elems \<Rightarrow> heap" where
  "put_elems h arr es =
     (case data arr of
        None \<Rightarrow> h
      | Some a \<Rightarrow>
          (case h a of
             None \<Rightarrow> h
           | Some b \<Rightarrow> h(a \<mapsto> b\<lparr>elems := es\<rparr>)))"

text \<open>
  Modelled from the spec: the macro \<^verbatim>\<open>FX_PTR_1D\<close> of \<^verbatim>\<open>ficus.h\<close> is missing.
  \<^verbatim>\<open>*FX_PTR_1D(typ, arr, i)\<close> is cell \<open>i\<close> of the cells \<open>xs\<close> of the array, read as cells
  of type \<^verbatim>\<open>typ\<close>; there is none outside the storage (\<open>None\<close>).
\<close>

definition FX_PTR_1D :: "'a list \<Rightarrow> int_t \<Rightarrow> 'a option" where
  "FX_PTR_1D xs i =
     (if 0 \<le> sint i \<and> nat (sint i) < length xs then Some (xs ! nat (sint i)) else None)"

section \<open>The module Hashmap\<close>

subsection \<open>Constructors of the variant\<close>

definition Hashmap_IndexByte :: "fx_arr_t \<Rightarrow> heap \<Rightarrow> index_t \<times> heap" where
  "Hashmap_IndexByte arg0 h =
     (case fx_copy_arr arg0 h of (a, h') \<Rightarrow> (\<lparr>tag = 1, u = a\<rparr>, h'))"

definition Hashmap_IndexWord :: "fx_arr_t \<Rightarrow> heap \<Rightarrow> index_t \<times> heap" where
  "Hashmap_IndexWord arg0 h =
     (case fx_copy_arr arg0 h of (a, h') \<Rightarrow> (\<lparr>tag = 2, u = a\<rparr>, h'))"

definition Hashmap_IndexLarge :: "fx_arr_t \<Rightarrow> heap \<Rightarrow> index_t \<times> heap" where
  "Hashmap_IndexLarge arg0 h =
     (case fx_copy_arr arg0 h of (a, h') \<Rightarrow> (\<lparr>tag = 3, u = a\<rparr>, h'))"

subsection \<open>makeindex\<close>

text \<open>
  The loop \<^verbatim>\<open>for (i = 0; i < size_0; i++, dstptr++) *dstptr = 0\<close>, on the cells
  \<open>dstptr\<close> runs over. A write past the last cell is undefined in C: \<open>None\<close>.
\<close>

function fill_loop :: "int \<Rightarrow> int \<Rightarrow> 'a \<Rightarrow> 'a list \<Rightarrow> 'a list option" where
  "fill_loop i n z dst =
     (if i < n then
        (if 0 \<le> i \<and> nat i < length dst then fill_loop (i + 1) n z (dst[nat i := z]) else None)
      else Some dst)"
  by pat_completeness auto
termination
  by (relation "measure (\<lambda>(i, n, z, dst). nat (n - i))") auto

declare fill_loop.simps [simp del]

text \<open>
  \<^verbatim>\<open>_fx_M7HashmapFM9makeindexN16Hashmap__index_t1i\<close>. The result is the status or
  the container written to \<^verbatim>\<open>fx_result\<close>, and the heap the call leaves.
\<close>

definition Hashmap_makeindex ::
  "fresh option \<Rightarrow> int_t \<Rightarrow> heap \<Rightarrow> (fx_exn + index_t) \<times> heap" where
  "Hashmap_makeindex al size_0 h =
     (let v_0 = null_arr; v_1 = null_arr; v_2 = null_arr in
      if sint size_0 \<le> 256 then
        (case fx_make_arr al size_0 T_uint8 h of
           Inl e \<Rightarrow> (Inl e, fx_free_arr v_2 (fx_free_arr v_1 (fx_free_arr v_0 h)))
         | Inr (v_0, h1) \<Rightarrow>
             (case Option.bind (bytes_at h1 v_0) (fill_loop 0 (sint size_0) 0) of
                None \<Rightarrow> (Inl Undefined_Access, h1)
              | Some dst \<Rightarrow>
                  let h2 = put_elems h1 v_0 (ByteElems dst);
                      (res, h3) = Hashmap_IndexByte v_0 h2
                  in (Inr res, fx_free_arr v_2 (fx_free_arr v_1 (fx_free_arr v_0 h3)))))
      else if sint size_0 \<le> 65536 then
        (case fx_make_arr al size_0 T_uint16 h of
           Inl e \<Rightarrow> (Inl e, fx_free_arr v_2 (fx_free_arr v_1 (fx_free_arr v_0 h)))
         | Inr (v_1, h1) \<Rightarrow>
             (case Option.bind (words_at h1 v_1) (fill_loop 0 (sint size_0) 0) of
                None \<Rightarrow> (Inl Undefined_Access, h1)
              | Some dst \<Rightarrow>
                  let h2 = put_elems h1 v_1 (WordElems dst);
                      (res, h3) = Hashmap_IndexWord v_1 h2
                  in (Inr res, fx_free_arr v_2 (fx_free_arr v_1 (fx_free_arr v_0 h3)))))
      else
        (case fx_make_arr al size_0 T_int h of
           Inl e \<Rightarrow> (Inl e, fx_free_arr v_2 (fx_free_arr v_1 (fx_free_arr v_0 h)))
         | Inr (v_2, h1) \<Rightarrow>
             (case Option.bind (larges_at h1 v_2) (fill_loop 0 (sint size_0) 0) of
                None \<Rightarrow> (Inl Undefined_Access, h1)
              | Some dst \<Rightarrow>
                  let h2 = put_elems h1 v_2 (LargeElems dst);
                      (res, h3) = Hashmap_IndexLarge v_2 h2
                  in (Inr res, fx_free_arr v_2 (fx_free_arr v_1 (fx_free_arr v_0 h3))))))"

subsection \<open>size, get and set\<close>

text \<open>\<^verbatim>\<open>_fx_M7HashmapFM4sizei1N16Hashmap__index_t\<close>.\<close>

definition Hashmap_size :: "index_t \<Rightarrow> fx_exn + int_t" where
  "Hashmap_size idx_0 =
     (let tag_0 = tag idx_0 in
      if tag_0 = 1 then Inr (FX_ARR_SIZE (u idx_0))
      else if tag_0 = 2 then Inr (FX_ARR_SIZE (u idx_0))
      else if tag_0 = 3 then Inr (FX_ARR_SIZE (u idx_0))
      else Inl FX_EXN_NoMatchError)"

text \<open>
  \<^verbatim>\<open>_fx_M7HashmapFM3geti2N16Hashmap__index_ti\<close>. It writes nothing but its result, so
  it is a function of the heap.
\<close>

definition Hashmap_get :: "heap \<Rightarrow> index_t \<Rightarrow> int_t \<Rightarrow> fx_exn + int_t" where
  "Hashmap_get h idx_0 i_0 =
     (let tag_0 = tag idx_0 in
      if tag_0 = 1 then
        (if FX_CHKIDX1 (u idx_0) i_0 then
           (case Option.bind (bytes_at h (u idx_0)) (\<lambda>xs. FX_PTR_1D xs i_0) of
              None \<Rightarrow> Inl Undefined_Access
            | Some x \<Rightarrow> Inr (ucast x))
         else Inl FX_EXN_OutOfRangeError)
      else if tag_0 = 2 then
        (if FX_CHKIDX1 (u idx_0) i_0 then
           (case Option.bind (words_at h (u idx_0)) (\<lambda>xs. FX_PTR_1D xs i_0) of
              None \<Rightarrow> Inl Undefined_Access
            | Some x \<Rightarrow> Inr (ucast x))
         else Inl FX_EXN_OutOfRangeError)
      else if tag_0 = 3 then
        (if FX_CHKIDX1 (u idx_0) i_0 then
           (case Option.bind (larges_at h (u idx_0)) (\<lambda>xs. FX_PTR_1D xs i_0) of
              None \<Rightarrow> Inl Undefined_Access
            | Some x \<Rightarrow> Inr x)
         else Inl FX_EXN_OutOfRangeError)
      else Inl FX_EXN_NoMatchError)"

text \<open>
  \<^verbatim>\<open>_fx_M7HashmapFM3setv3N16Hashmap__index_tii\<close>. The result is the status (\<open>Inr ()\<close>
  is \<^verbatim>\<open>FX_OK\<close>) and the heap the call leaves. The struct behind \<^verbatim>\<open>idx_0\<close> is only
  read.
\<close>

definition Hashmap_set :: "heap \<Rightarrow> index_t \<Rightarrow> int_t \<Rightarrow> int_t \<Rightarrow> (fx_exn + unit) \<times> heap" where
  "Hashmap_set h idx_0 i_0 newval_0 =
     (let tag_0 = tag idx_0 in
      if tag_0 = 1 then
        (if FX_CHKIDX1 (u idx_0) i_0 then
           (case bytes_at h (u idx_0) of
              None \<Rightarrow> (Inl Undefined_Access, h)
            | Some xs \<Rightarrow>
                if nat (sint i_0) < length xs
                then (Inr (), put_elems h (u idx_0) (ByteElems (xs[nat (sint i_0) := ucast newval_0])))
                else (Inl Undefined_Access, h))
         else (Inl FX_EXN_OutOfRangeError, h))
      else if tag_0 = 2 then
        (if FX_CHKIDX1 (u idx_0) i_0 then
           (case words_at h (u idx_0) of
              None \<Rightarrow> (Inl Undefined_Access, h)
            | Some xs \<Rightarrow>
                if nat (sint i_0) < length xs
                then (Inr (), put_elems h (u idx_0) (WordElems (xs[nat (sint i_0) := ucast newval_0])))
                else (Inl Undefined_Access, h))
         else (Inl FX_EXN_OutOfRangeError, h))
      else if tag_0 = 3 then
        (if FX_CHKIDX1 (u idx_0) i_0 then
           (case larges_at h (u idx_0) of
              None \<Rightarrow> (Inl Undefined_Access, h)
            | Some xs \<Rightarrow>
                if nat (sint i_0) < length xs
                then (Inr (), put_elems h (u idx_0) (LargeElems (xs[nat (sint i_0) := newval_0])))
                else (Inl Undefined_Access, h))
         else (Inl FX_EXN_OutOfRangeError, h))
      else (Inl FX_EXN_NoMatchError, h))"

subsection \<open>copy\<close>

text \<open>
  The loop \<^verbatim>\<open>for (i = 0; i < ni; i++, dstptr++) { x = ptr_tab[i]; *dstptr = x; }\<close>
  from the cells \<open>src\<close> of the source to the cells \<open>dst\<close> of the new array. A read or
  a write past the last cell is undefined in C: \<open>None\<close>.
\<close>

function copy_loop :: "int \<Rightarrow> int \<Rightarrow> 'a list \<Rightarrow> 'a list \<Rightarrow> 'a list option" where
  "copy_loop i n src dst =
     (if i < n then
        (if 0 \<le> i \<and> nat i < length src \<and> nat i < length dst
         then copy_loop (i + 1) n src (dst[nat i := src ! nat i]) else None)
      else Some dst)"
  by pat_completeness auto
termination
  by (relation "measure (\<lambda>(i, n, src, dst). nat (n - i))") auto

declare copy_loop.simps [simp del]

text \<open>
  \<^verbatim>\<open>_fx_M7HashmapFM4copyN16Hashmap__index_t1N16Hashmap__index_t\<close>. The result is the
  status or the container written to \<^verbatim>\<open>fx_result\<close>, and the heap the call leaves.
\<close>

definition Hashmap_copy ::
  "fresh option \<Rightarrow> index_t \<Rightarrow> heap \<Rightarrow> (fx_exn + index_t) \<times> heap" where
  "Hashmap_copy al idx_0 h =
     (let tag_0 = tag idx_0 in
      if tag_0 = 1 then
        (let v_0 = null_arr;
             (tab_0, h1) = fx_copy_arr (u idx_0) h;
             ni_0 = FX_ARR_SIZE tab_0
         in case fx_make_arr al ni_0 T_uint8 h1 of
              Inl e \<Rightarrow> (Inl e, fx_free_arr v_0 (fx_free_arr tab_0 h1))
            | Inr (v_0, h2) \<Rightarrow>
                (case Option.bind (bytes_at h2 tab_0)
                        (\<lambda>src. Option.bind (bytes_at h2 v_0) (copy_loop 0 (sint ni_0) src)) of
                   None \<Rightarrow> (Inl Undefined_Access, h2)
                 | Some dst \<Rightarrow>
                     let h3 = put_elems h2 v_0 (ByteElems dst);
                         (res, h4) = Hashmap_IndexByte v_0 h3
                     in (Inr res, fx_free_arr v_0 (fx_free_arr tab_0 h4))))
      else if tag_0 = 2 then
        (let v_1 = null_arr;
             (tab_1, h1) = fx_copy_arr (u idx_0) h;
             ni_1 = FX_ARR_SIZE tab_1
         in case fx_make_arr al ni_1 T_uint16 h1 of
              Inl e \<Rightarrow> (Inl e, fx_free_arr v_1 (fx_free_arr tab_1 h1))
            | Inr (v_1, h2) \<Rightarrow>
                (case Option.bind (words_at h2 tab_1)
                        (\<lambda>src. Option.bind (words_at h2 v_1) (copy_loop 0 (sint ni_1) src)) of
                   None \<Rightarrow> (Inl Undefined_Access, h2)
                 | Some dst \<Rightarrow>
                     let h3 = put_elems h2 v_1 (WordElems dst);
                         (res, h4) = Hashmap_IndexWord v_1 h3
                     in (Inr res, fx_free_arr v_1 (fx_free_arr tab_1 h4))))
      else if tag_0 = 3 then
        (let v_2 = null_arr;
             (tab_2, h1) = fx_copy_arr (u idx_0) h;
             ni_2 = FX_ARR_SIZE tab_2
         in case fx_make_arr al ni_2 T_int h1 of
              Inl e \<Rightarrow> (Inl e, fx_free_arr v_2 (fx_free_arr tab_2 h1))
            | Inr (v_2, h2) \<Rightarrow>
                (case Option.bind (larges_at h2 tab_2)
                        (\<lambda>src. Option.bind (larges_at h2 v_2) (copy_loop 0 (sint ni_2) src)) of
                   None \<Rightarrow> (Inl Undefined_Access, h2)
                 | Some dst \<Rightarrow>
                     let h3 = put_elems h2 v_2 (LargeElems dst);
                         (res, h4) = Hashmap_IndexLarge v_2 h3
                     in (Inr res, fx_free_arr v_2 (fx_free_arr tab_2 h4))))
      else (Inl FX_EXN_NoMatchError, h))"

subsection \<open>Containers in a valid state\<close>

text \<open>
  A container is valid in a heap when its tag is one of the three variants, its length
  is not negative, and its array points to storage of the variant's element type with
  exactly that many cells (a null array has no cells), to which the container's own
  reference is counted.
\<close>

definition valid :: "heap \<Rightarrow> index_t \<Rightarrow> bool" where
  "valid h idx \<longleftrightarrow>
     0 \<le> sint (dim0_size (u idx)) \<and>
     (case data (u idx) of
        None \<Rightarrow> True
      | Some a \<Rightarrow> (case h a of None \<Rightarrow> False | Some b \<Rightarrow> 0 < rc b)) \<and>
     (if tag idx = 1 then
        (case bytes_at h (u idx) of
           None \<Rightarrow> False | Some xs \<Rightarrow> length xs = nat (sint (dim0_size (u idx))))
      else if tag idx = 2 then
        (case words_at h (u idx) of
           None \<Rightarrow> False | Some xs \<Rightarrow> length xs = nat (sint (dim0_size (u idx))))
      else if tag idx = 3 then
        (case larges_at h (u idx) of
           None \<Rightarrow> False | Some xs \<Rightarrow> length xs = nat (sint (dim0_size (u idx))))
      else False)"

text \<open>The number of cells in the storage an array points to.\<close>

fun elems_count :: "elems \<Rightarrow> nat" where
  "elems_count (ByteElems xs) = length xs"
| "elems_count (WordElems xs) = length xs"
| "elems_count (LargeElems xs) = length xs"

definition cell_count :: "heap \<Rightarrow> fx_arr_t \<Rightarrow> nat option" where
  "cell_count h arr =
     (case data arr of
        None \<Rightarrow> Some 0
      | Some a \<Rightarrow> map_option (\<lambda>b. elems_count (elems b)) (h a))"

subsection \<open>Sequences of calls on one container\<close>

text \<open>
  A caller that issues \<open>get\<close> and \<open>set\<close> calls on one container, one after the other,
  whatever their statuses; \<open>run\<close> is the heap the calls leave.
\<close>

datatype call = Get int_t | Set int_t int_t

fun run :: "heap \<Rightarrow> index_t \<Rightarrow> call list \<Rightarrow> heap" where
  "run h idx [] = h"
| "run h idx (Get i # cs) = run h idx cs"
| "run h idx (Set i v # cs) = run (snd (Hashmap_set h idx i v)) idx cs"

section \<open>Line input\<close>

text \<open>
  \<^verbatim>\<open>fx_fgets\<close> of \<^verbatim>\<open>file.impl.h\<close> reads through the C library. A stream is the
  characters not read yet, whether reading past them is a read error (\<open>broken\<close>) rather
  than the end of the file, and the end-of-file indicator that \<^verbatim>\<open>feof\<close> reads.
\<close>

record FILE =
  pending :: string
  broken :: bool
  eof :: bool

definition newline :: char where
  "newline = CHR 0x0A"

definition NUL :: char where
  "NUL = CHR 0x00"

definition FX_FILE_ROW_BUFSIZE :: int where
  "FX_FILE_ROW_BUFSIZE = 128"

text \<open>
  \<^verbatim>\<open>fgets(s, count, f)\<close> of the C library reads at most \<open>count - 1\<close> characters and
  stops after a newline, which it keeps, or at the end of the file. It returns a null
  pointer (\<open>None\<close>) when the end of the file is met before any character, and on a read
  error.
\<close>

fun read_chars :: "nat \<Rightarrow> string \<Rightarrow> string" where
  "read_chars 0 cs = []"
| "read_chars (Suc k) [] = []"
| "read_chars (Suc k) (c # cs) = (if c = newline then [c] else c # read_chars k cs)"

definition fgets :: "int \<Rightarrow> FILE \<Rightarrow> string option \<times> FILE" where
  "fgets count f =
     (let got = read_chars (nat (count - 1)) (pending f);
          rest = drop (length got) (pending f);
          at_newline = (got \<noteq> [] \<and> last got = newline);
          ran_out = (rest = [] \<and> \<not> at_newline \<and> length got < nat (count - 1))
      in if ran_out then
           (if broken f then (None, f\<lparr>pending := rest\<rparr>)
            else if got = [] then (None, f\<lparr>eof := True\<rparr>)
            else (Some got, f\<lparr>pending := rest, eof := True\<rparr>))
         else (Some got, f\<lparr>pending := rest\<rparr>))"

definition strlen :: "string \<Rightarrow> nat" where
  "strlen s = length (takeWhile (\<lambda>c. c \<noteq> NUL) s)"

text \<open>
  Modelled from the spec: \<^verbatim>\<open>fx_cstr2str\<close> and \<^verbatim>\<open>fx_realloc\<close> belong to the runtime,
  which is not among the sources. \<open>fx_cstr2str buf n\<close> returns the accumulated text, the
  first \<open>n\<close> characters of the buffer; whether \<^verbatim>\<open>fx_realloc\<close> can grow the buffer to a
  size is the argument \<open>mem\<close> of the reader.
\<close>

definition fx_cstr2str :: "string \<Rightarrow> int \<Rightarrow> fx_exn + string" where
  "fx_cstr2str buf n = Inr (take (nat n) buf)"

text \<open>
  The loop \<^verbatim>\<open>for(;;)\<close> of \<^verbatim>\<open>fx_fgets\<close>, on the buffer size, the offset, the
  characters of the buffer before the offset, and the stream. It ends with the status
  (\<open>None\<close> is \<^verbatim>\<open>FX_OK\<close>). The integers are unbounded here: the model is that of
  lines shorter than \<^verbatim>\<open>INT_MAX\<close>, for which \<^verbatim>\<open>count > INT_MAX\<close> is never true.
\<close>

partial_function (option) fx_fgets_loop ::
  "(int \<Rightarrow> bool) \<Rightarrow> int \<Rightarrow> int \<Rightarrow> string \<Rightarrow> FILE \<Rightarrow> (fx_exn option \<times> int \<times> string \<times> FILE) option"
where
  "fx_fgets_loop mem bufsz bufofs buf f =
     (let count = bufsz - bufofs in
      case fgets count f of
        (None, f') \<Rightarrow>
          Some (if \<not> eof f' then Some FX_EXN_IOError else None, bufofs, buf, f')
      | (Some ptr, f') \<Rightarrow>
          (let blocksz = int (strlen ptr);
               buf' = take (nat bufofs) buf @ ptr;
               bufofs' = bufofs + blocksz
           in if blocksz < count - 1 then Some (None, bufofs', buf', f')
              else if bufsz - bufofs' < 16 then
                (let bufsz' = bufsz * 3 div 2
                 in if \<not> mem bufsz' then Some (Some FX_EXN_OutOfMemError, bufofs', buf', f')
                    else fx_fgets_loop mem bufsz' bufofs' buf' f')
              else fx_fgets_loop mem bufsz bufofs' buf' f'))"

text \<open>
  \<^verbatim>\<open>fx_fgets\<close>: the status or the text written to \<^verbatim>\<open>str\<close>, and the stream the call
  leaves; \<open>None\<close> when the loop does not end.
\<close>

definition fx_fgets :: "(int \<Rightarrow> bool) \<Rightarrow> FILE \<Rightarrow> ((fx_exn + string) \<times> FILE) option" where
  "fx_fgets mem f =
     (case fx_fgets_loop mem FX_FILE_ROW_BUFSIZE 0 [] f of
        None \<Rightarrow> None
      | Some (fx_status, bufofs, buf, f') \<Rightarrow>
          Some ((case fx_status of
                   Some e \<Rightarrow> Inl e
                 | None \<Rightarrow> fx_cstr2str buf bufofs), f'))"

section \<open>Properties of the model\<close>

subsection \<open>The loops\<close>

lemma fill_loop_from:
  "0 \<le> i \<Longrightarrow> i \<le> n \<Longrightarrow> length dst = nat n \<Longrightarrow>
   fill_loop i n z dst = Some (take (nat i) dst @ replicate (nat (n - i)) z)"
proof (induction i n z dst rule: fill_loop.induct)
  case (1 i n z dst)
  show ?case
  proof (cases "i < n")
    case True
    with "1.prems" have lt: "nat i < length dst" by simp
    have nat1: "nat (i + 1) = Suc (nat i)" using "1.prems" by simp
    have "fill_loop (i + 1) n z (dst[nat i := z]) =
          Some (take (nat (i + 1)) (dst[nat i := z]) @ replicate (nat (n - (i + 1))) z)"
      using "1.IH" [OF True] "1.prems" True lt by simp
    moreover have "take (nat (i + 1)) (dst[nat i := z]) = take (nat i) dst @ [z]"
      using lt by (simp add: nat1 take_Suc_conv_app_nth)
    moreover have "nat (n - i) = Suc (nat (n - (i + 1)))" using True by simp
    ultimately show ?thesis
      using True "1.prems" lt by (subst fill_loop.simps) (simp add: replicate_app_Cons_same)
  next
    case False
    with "1.prems" have "i = n" by simp
    then show ?thesis using "1.prems" by (subst fill_loop.simps) simp
  qed
qed

lemma fill_loop_all:
  "length dst = nat n \<Longrightarrow> fill_loop 0 n z dst = Some (replicate (nat n) z)"
proof (cases "0 \<le> n")
  case True
  assume "length dst = nat n"
  with True fill_loop_from [of 0 n dst z] show ?thesis by simp
next
  case False
  assume "length dst = nat n"
  with False show ?thesis by (subst fill_loop.simps) simp
qed

lemma copy_loop_from:
  "0 \<le> i \<Longrightarrow> i \<le> n \<Longrightarrow> length src = nat n \<Longrightarrow> length dst = nat n \<Longrightarrow>
   copy_loop i n src dst = Some (take (nat i) dst @ drop (nat i) src)"
proof (induction i n src dst rule: copy_loop.induct)
  case (1 i n src dst)
  show ?case
  proof (cases "i < n")
    case True
    with "1.prems" have lt: "nat i < length dst" "nat i < length src" by simp_all
    have nat1: "nat (i + 1) = Suc (nat i)" using "1.prems" by simp
    have "copy_loop (i + 1) n src (dst[nat i := src ! nat i]) =
          Some (take (nat (i + 1)) (dst[nat i := src ! nat i]) @ drop (nat (i + 1)) src)"
      using "1.IH" [OF True] "1.prems" True lt by simp
    moreover have "take (nat (i + 1)) (dst[nat i := src ! nat i]) = take (nat i) dst @ [src ! nat i]"
      using lt by (simp add: nat1 take_Suc_conv_app_nth)
    moreover have "drop (nat i) src = src ! nat i # drop (nat (i + 1)) src"
      using lt by (simp add: nat1 Cons_nth_drop_Suc)
    ultimately show ?thesis
      using True "1.prems" lt by (subst copy_loop.simps) simp
  next
    case False
    with "1.prems" have "i = n" by simp
    then show ?thesis using "1.prems" by (subst copy_loop.simps) simp
  qed
qed

lemma copy_loop_all:
  "length src = nat n \<Longrightarrow> length dst = nat n \<Longrightarrow> copy_loop 0 n src dst = Some src"
proof (cases "0 \<le> n")
  case True
  assume "length src = nat n" "length dst = nat n"
  with True copy_loop_from [of 0 n src dst] show ?thesis by simp
next
  case False
  assume "length src = nat n" "length dst = nat n"
  with False show ?thesis by (subst copy_loop.simps) simp
qed

subsection \<open>Narrowing and widening casts\<close>

lemma sint_widen8: "sint (ucast (x :: 8 word) :: 64 word) = uint x"
proof -
  have "uint x < 2 ^ 8" using uint_bounded [of x] by simp
  then have "uint x < 2 ^ 63" by simp
  moreover have "0 \<le> uint x" by simp
  then have "- (2 ^ 63) \<le> uint x"
    by (rule order_trans [rotated]) simp
  ultimately have "signed_take_bit 63 (uint x) = uint x"
    by (simp add: signed_take_bit_int_eq_self)
  then show ?thesis by (simp add: signed_ucast_eq)
qed

lemma uint_narrow8: "uint (ucast (v :: 64 word) :: 8 word) = sint v mod 2 ^ 8"
proof -
  have "uint (ucast v :: 8 word) = take_bit 8 (uint v)"
    by (simp add: unsigned_ucast_eq)
  also have "\<dots> = take_bit 8 (take_bit 64 (sint v))"
    using uint_sint [of v] by simp
  also have "\<dots> = take_bit 8 (sint v)"
    by simp
  also have "\<dots> = sint v mod 2 ^ 8"
    by (rule take_bit_eq_mod)
  finally show ?thesis .
qed

lemma sint_widen16: "sint (ucast (x :: 16 word) :: 64 word) = uint x"
proof -
  have "uint x < 2 ^ 16" using uint_bounded [of x] by simp
  then have "uint x < 2 ^ 63" by simp
  moreover have "0 \<le> uint x" by simp
  then have "- (2 ^ 63) \<le> uint x"
    by (rule order_trans [rotated]) simp
  ultimately have "signed_take_bit 63 (uint x) = uint x"
    by (simp add: signed_take_bit_int_eq_self)
  then show ?thesis by (simp add: signed_ucast_eq)
qed

lemma uint_narrow16: "uint (ucast (v :: 64 word) :: 16 word) = sint v mod 2 ^ 16"
proof -
  have "uint (ucast v :: 16 word) = take_bit 16 (uint v)"
    by (simp add: unsigned_ucast_eq)
  also have "\<dots> = take_bit 16 (take_bit 64 (sint v))"
    using uint_sint [of v] by simp
  also have "\<dots> = take_bit 16 (sint v)"
    by simp
  also have "\<dots> = sint v mod 2 ^ 16"
    by (rule take_bit_eq_mod)
  finally show ?thesis .
qed

subsection \<open>What makeindex returns\<close>

lemma makeindex_byte:
  "sint n \<le> 256 \<Longrightarrow>
   Hashmap_makeindex (Some f) n h =
     (Inr \<lparr>tag = 1, u = \<lparr>data = Some (place f), dim0_size = n\<rparr>\<rparr>,
      h(place f \<mapsto> \<lparr>rc = 1, elems = ByteElems (replicate (nat (sint n)) 0)\<rparr>))"
  by (simp add: Hashmap_makeindex_def fx_make_arr_def raw_elems_def bytes_at_def
      fill_loop_all put_elems_def Hashmap_IndexByte_def fx_copy_arr_def fx_free_arr_def null_arr_def)

lemma makeindex_word:
  "\<not> sint n \<le> 256 \<Longrightarrow> sint n \<le> 65536 \<Longrightarrow>
   Hashmap_makeindex (Some f) n h =
     (Inr \<lparr>tag = 2, u = \<lparr>data = Some (place f), dim0_size = n\<rparr>\<rparr>,
      h(place f \<mapsto> \<lparr>rc = 1, elems = WordElems (replicate (nat (sint n)) 0)\<rparr>))"
  by (simp add: Hashmap_makeindex_def fx_make_arr_def raw_elems_def words_at_def
      fill_loop_all put_elems_def Hashmap_IndexWord_def fx_copy_arr_def fx_free_arr_def null_arr_def)

lemma makeindex_large:
  "\<not> sint n \<le> 65536 \<Longrightarrow>
   Hashmap_makeindex (Some f) n h =
     (Inr \<lparr>tag = 3, u = \<lparr>data = Some (place f), dim0_size = n\<rparr>\<rparr>,
      h(place f \<mapsto> \<lparr>rc = 1, elems = LargeElems (replicate (nat (sint n)) 0)\<rparr>))"
  by (simp add: Hashmap_makeindex_def fx_make_arr_def raw_elems_def larges_at_def
      fill_loop_all put_elems_def Hashmap_IndexLarge_def fx_copy_arr_def fx_free_arr_def null_arr_def)

lemma makeindex_oom: "Hashmap_makeindex None n h = (Inl FX_EXN_OutOfMemError, h)"
  by (simp add: Hashmap_makeindex_def Let_def fx_make_arr_def fx_free_arr_def null_arr_def)

lemma makeindex_valid:
  assumes "0 \<le> sint n" and "Hashmap_makeindex (Some f) n h = (Inr idx, h0)"
  shows "valid h0 idx \<and> cell_count h0 (u idx) = Some (nat (sint n))"
proof -
  consider "sint n \<le> 256" | "\<not> sint n \<le> 256" "sint n \<le> 65536"
    | "\<not> sint n \<le> 65536" by linarith
  then show ?thesis
  proof cases
    case 1
    with assms show ?thesis
      by (auto simp: makeindex_byte valid_def bytes_at_def cell_count_def)
  next
    case 2
    with assms show ?thesis
      by (auto simp: makeindex_word valid_def words_at_def cell_count_def)
  next
    case 3
    with assms show ?thesis
      by (auto simp: makeindex_large valid_def larges_at_def cell_count_def)
  qed
qed

lemma makeindex_size:
  "\<exists>idx h0. Hashmap_makeindex (Some f) n h = (Inr idx, h0) \<and> Hashmap_size idx = Inr n"
proof -
  consider "sint n \<le> 256" | "\<not> sint n \<le> 256" "sint n \<le> 65536"
    | "\<not> sint n \<le> 65536" by linarith
  then show ?thesis
    by cases (simp_all add: makeindex_byte makeindex_word makeindex_large
        Hashmap_size_def FX_ARR_SIZE_def)
qed

subsection \<open>What get and set do\<close>

lemma valid_tag: "valid h idx \<Longrightarrow> tag idx = 1 \<or> tag idx = 2 \<or> tag idx = 3"
  by (auto simp: valid_def split: if_splits)

lemma size_Inr: "Hashmap_size idx = Inr n \<Longrightarrow>
   (tag idx = 1 \<or> tag idx = 2 \<or> tag idx = 3) \<and> n = dim0_size (u idx)"
  by (auto simp: Hashmap_size_def FX_ARR_SIZE_def Let_def split: if_splits)

lemma set_get_byte:
  "valid h idx \<Longrightarrow> FX_CHKIDX1 (u idx) i \<Longrightarrow> tag idx = 1 \<Longrightarrow>
   \<exists>h'. Hashmap_set h idx i v = (Inr (), h') \<and>
        Hashmap_get h' idx i = Inr (ucast (ucast v :: 8 word))"
  by (auto simp: valid_def Hashmap_set_def Hashmap_get_def FX_CHKIDX1_def FX_PTR_1D_def
      bytes_at_def put_elems_def split: option.splits elems.splits)

lemma set_get_word:
  "valid h idx \<Longrightarrow> FX_CHKIDX1 (u idx) i \<Longrightarrow> tag idx = 2 \<Longrightarrow>
   \<exists>h'. Hashmap_set h idx i v = (Inr (), h') \<and>
        Hashmap_get h' idx i = Inr (ucast (ucast v :: 16 word))"
  by (auto simp: valid_def Hashmap_set_def Hashmap_get_def FX_CHKIDX1_def FX_PTR_1D_def
      words_at_def put_elems_def split: option.splits elems.splits)

lemma set_get_large:
  "valid h idx \<Longrightarrow> FX_CHKIDX1 (u idx) i \<Longrightarrow> tag idx = 3 \<Longrightarrow>
   \<exists>h'. Hashmap_set h idx i v = (Inr (), h') \<and> Hashmap_get h' idx i = Inr v"
  by (auto simp: valid_def Hashmap_set_def Hashmap_get_def FX_CHKIDX1_def FX_PTR_1D_def
      larges_at_def put_elems_def split: option.splits elems.splits)

lemma get_byte_range:
  "Hashmap_get h idx i = Inr r \<Longrightarrow> tag idx = 1 \<Longrightarrow> 0 \<le> sint r \<and> sint r \<le> 255"
proof -
  assume g: "Hashmap_get h idx i = Inr r" and t: "tag idx = 1"
  then obtain x :: "8 word" where r: "r = ucast x"
    by (auto simp: Hashmap_get_def split: if_splits option.splits)
  have "uint x < 2 ^ 8" using uint_bounded [of x] by simp
  then show ?thesis using r by (simp add: sint_widen8)
qed

lemma get_word_range:
  "Hashmap_get h idx i = Inr r \<Longrightarrow> tag idx = 2 \<Longrightarrow> 0 \<le> sint r \<and> sint r \<le> 65535"
proof -
  assume g: "Hashmap_get h idx i = Inr r" and t: "tag idx = 2"
  then obtain x :: "16 word" where r: "r = ucast x"
    by (auto simp: Hashmap_get_def split: if_splits option.splits)
  have "uint x < 2 ^ 16" using uint_bounded [of x] by simp
  then show ?thesis using r by (simp add: sint_widen16)
qed

lemma set_Inr_shape:
  assumes "Hashmap_set h idx i v = (Inr (), h')"
  shows "\<exists>a b es. data (u idx) = Some a \<and> h a = Some b \<and> h' = h(a \<mapsto> b\<lparr>elems := es\<rparr>) \<and>
           elems_count es = elems_count (elems b)"
  using assms
  by (auto simp: Hashmap_set_def Let_def bytes_at_def words_at_def larges_at_def put_elems_def
      split: if_splits option.splits elems.splits)

lemma set_other_cells:
  assumes "Hashmap_set h idx i v = (Inr (), h')" and "j \<noteq> i"
  shows "Hashmap_get h' idx j = Hashmap_get h idx j"
proof -
  from assms(1) have i0: "0 \<le> sint i"
    by (auto simp: Hashmap_set_def Let_def FX_CHKIDX1_def split: if_splits)
  have ne: "0 \<le> sint j \<Longrightarrow> nat (sint j) \<noteq> nat (sint i)"
    using assms(2) i0 by (auto simp: nat_eq_iff dest: signed_word_eqI)
  from assms(1) ne show ?thesis
    by (auto simp: Hashmap_set_def Hashmap_get_def Let_def FX_CHKIDX1_def FX_PTR_1D_def
        bytes_at_def words_at_def larges_at_def put_elems_def
        split: if_splits option.splits elems.splits)
qed

lemma set_valid:
  assumes "valid h idx" shows "valid (snd (Hashmap_set h idx i v)) idx"
  using assms
  by (auto simp: valid_def Hashmap_set_def Let_def bytes_at_def words_at_def larges_at_def
      put_elems_def split: if_splits option.splits elems.splits)

lemma set_cell_count:
  "cell_count (snd (Hashmap_set h idx i v)) arr = cell_count h arr"
  by (auto simp: cell_count_def Hashmap_set_def Let_def bytes_at_def words_at_def larges_at_def
      put_elems_def split: if_splits option.splits elems.splits)

lemma run_valid: "valid h idx \<Longrightarrow> valid (run h idx cs) idx"
  by (induction h idx cs rule: run.induct) (simp_all add: set_valid)

lemma run_cell_count: "cell_count (run h idx cs) arr = cell_count h arr"
  by (induction h idx cs rule: run.induct) (simp_all add: set_cell_count)

subsection \<open>What copy returns\<close>

lemma copy_byte:
  assumes "valid h a" and "tag a = 1" and "place f \<notin> dom h"
  shows "\<exists>xs. bytes_at h (u a) = Some xs \<and>
     Hashmap_copy (Some f) a h =
       (Inr \<lparr>tag = 1, u = \<lparr>data = Some (place f), dim0_size = dim0_size (u a)\<rparr>\<rparr>,
        h(place f \<mapsto> \<lparr>rc = 1, elems = ByteElems xs\<rparr>))"
proof (cases "data (u a)")
  case None
  with assms show ?thesis
    by (auto simp: valid_def Hashmap_copy_def Let_def fx_copy_arr_def FX_ARR_SIZE_def
        fx_make_arr_def raw_elems_def bytes_at_def copy_loop_all put_elems_def
        Hashmap_IndexByte_def fx_free_arr_def null_arr_def)
next
  case (Some a0)
  with assms obtain b xs where b: "h a0 = Some b" and rc: "0 < rc b"
    and xs: "elems b = ByteElems xs" and len: "length xs = nat (sint (dim0_size (u a)))"
    by (auto simp: valid_def bytes_at_def split: option.splits elems.splits)
  from b assms(3) have ne: "place f \<noteq> a0" by auto
  have upd: "h(a0 \<mapsto> b) = h" using b by (rule map_upd_triv)
  from Some b rc xs len ne assms(2) upd show ?thesis
    by (simp add: Hashmap_copy_def Let_def fx_copy_arr_def FX_ARR_SIZE_def
        fx_make_arr_def raw_elems_def bytes_at_def copy_loop_all put_elems_def
        Hashmap_IndexByte_def fx_free_arr_def null_arr_def fun_upd_twist)
qed

lemma copy_word:
  assumes "valid h a" and "tag a = 2" and "place f \<notin> dom h"
  shows "\<exists>xs. words_at h (u a) = Some xs \<and>
     Hashmap_copy (Some f) a h =
       (Inr \<lparr>tag = 2, u = \<lparr>data = Some (place f), dim0_size = dim0_size (u a)\<rparr>\<rparr>,
        h(place f \<mapsto> \<lparr>rc = 1, elems = WordElems xs\<rparr>))"
proof (cases "data (u a)")
  case None
  with assms show ?thesis
    by (auto simp: valid_def Hashmap_copy_def Let_def fx_copy_arr_def FX_ARR_SIZE_def
        fx_make_arr_def raw_elems_def words_at_def copy_loop_all put_elems_def
        Hashmap_IndexWord_def fx_free_arr_def null_arr_def)
next
  case (Some a0)
  with assms obtain b xs where b: "h a0 = Some b" and rc: "0 < rc b"
    and xs: "elems b = WordElems xs" and len: "length xs = nat (sint (dim0_size (u a)))"
    by (auto simp: valid_def words_at_def split: option.splits elems.splits)
  from b assms(3) have ne: "place f \<noteq> a0" by auto
  have upd: "h(a0 \<mapsto> b) = h" using b by (rule map_upd_triv)
  from Some b rc xs len ne assms(2) upd show ?thesis
    by (simp add: Hashmap_copy_def Let_def fx_copy_arr_def FX_ARR_SIZE_def
        fx_make_arr_def raw_elems_def words_at_def copy_loop_all put_elems_def
        Hashmap_IndexWord_def fx_free_arr_def null_arr_def fun_upd_twist)
qed

lemma copy_large:
  assumes "valid h a" and "tag a = 3" and "place f \<notin> dom h"
  shows "\<exists>xs. larges_at h (u a) = Some xs \<and>
     Hashmap_copy (Some f) a h =
       (Inr \<lparr>tag = 3, u = \<lparr>data = Some (place f), dim0_size = dim0_size (u a)\<rparr>\<rparr>,
        h(place f \<mapsto> \<lparr>rc = 1, elems = LargeElems xs\<rparr>))"
proof (cases "data (u a)")
  case None
  with assms show ?thesis
    by (auto simp: valid_def Hashmap_copy_def Let_def fx_copy_arr_def FX_ARR_SIZE_def
        fx_make_arr_def raw_elems_def larges_at_def copy_loop_all put_elems_def
        Hashmap_IndexLarge_def fx_free_arr_def null_arr_def)
next
  case (Some a0)
  with assms obtain b xs where b: "h a0 = Some b" and rc: "0 < rc b"
    and xs: "elems b = LargeElems xs" and len: "length xs = nat (sint (dim0_size (u a)))"
    by (auto simp: valid_def larges_at_def split: option.splits elems.splits)
  from b assms(3) have ne: "place f \<noteq> a0" by auto
  have upd: "h(a0 \<mapsto> b) = h" using b by (rule map_upd_triv)
  from Some b rc xs len ne assms(2) upd show ?thesis
    by (simp add: Hashmap_copy_def Let_def fx_copy_arr_def FX_ARR_SIZE_def
        fx_make_arr_def raw_elems_def larges_at_def copy_loop_all put_elems_def
        Hashmap_IndexLarge_def fx_free_arr_def null_arr_def fun_upd_twist)
qed

lemma cells_at_fresh:
  assumes "data arr \<noteq> Some p"
  shows "bytes_at (h(p \<mapsto> blk)) arr = bytes_at h arr"
    and "words_at (h(p \<mapsto> blk)) arr = words_at h arr"
    and "larges_at (h(p \<mapsto> blk)) arr = larges_at h arr"
  using assms by (auto simp: bytes_at_def words_at_def larges_at_def split: option.splits)

lemma valid_fresh:
  assumes "valid h a" and "h p = None"
  shows "valid (h(p \<mapsto> blk)) a"
proof -
  from assms have ne: "data (u a) \<noteq> Some p"
    by (auto simp: valid_def split: option.splits)
  note eqs = cells_at_fresh [OF ne, of h blk]
  have rcq: "(case data (u a) of None \<Rightarrow> True
              | Some x \<Rightarrow> (case (h(p \<mapsto> blk)) x of None \<Rightarrow> False | Some b \<Rightarrow> 0 < rc b)) =
             (case data (u a) of None \<Rightarrow> True
              | Some x \<Rightarrow> (case h x of None \<Rightarrow> False | Some b \<Rightarrow> 0 < rc b))"
    using ne by (cases "data (u a)") auto
  from assms(1) show ?thesis unfolding valid_def eqs rcq .
qed

lemma get_fresh:
  assumes "data (u a) \<noteq> Some p"
  shows "Hashmap_get (h(p \<mapsto> blk)) a i = Hashmap_get h a i"
  using assms by (simp add: Hashmap_get_def Let_def cells_at_fresh)

lemma get_copied_byte:
  assumes "tag a = 1" and "bytes_at h (u a) = Some xs"
  shows "Hashmap_get (h(p \<mapsto> \<lparr>rc = r, elems = ByteElems xs\<rparr>))
           \<lparr>tag = 1, u = \<lparr>data = Some p, dim0_size = dim0_size (u a)\<rparr>\<rparr> i = Hashmap_get h a i"
  using assms by (simp add: Hashmap_get_def FX_CHKIDX1_def bytes_at_def)

lemma get_copied_word:
  assumes "tag a = 2" and "words_at h (u a) = Some xs"
  shows "Hashmap_get (h(p \<mapsto> \<lparr>rc = r, elems = WordElems xs\<rparr>))
           \<lparr>tag = 2, u = \<lparr>data = Some p, dim0_size = dim0_size (u a)\<rparr>\<rparr> i = Hashmap_get h a i"
  using assms by (simp add: Hashmap_get_def FX_CHKIDX1_def words_at_def)

lemma get_copied_large:
  assumes "tag a = 3" and "larges_at h (u a) = Some xs"
  shows "Hashmap_get (h(p \<mapsto> \<lparr>rc = r, elems = LargeElems xs\<rparr>))
           \<lparr>tag = 3, u = \<lparr>data = Some p, dim0_size = dim0_size (u a)\<rparr>\<rparr> i = Hashmap_get h a i"
  using assms by (simp add: Hashmap_get_def FX_CHKIDX1_def larges_at_def)

lemma valid_copied_byte:
  assumes "valid h a" and "tag a = 1" and "bytes_at h (u a) = Some xs"
  shows "valid (h(p \<mapsto> \<lparr>rc = 1, elems = ByteElems xs\<rparr>))
           \<lparr>tag = 1, u = \<lparr>data = Some p, dim0_size = dim0_size (u a)\<rparr>\<rparr>"
  using assms by (simp add: valid_def bytes_at_def)

lemma valid_copied_word:
  assumes "valid h a" and "tag a = 2" and "words_at h (u a) = Some xs"
  shows "valid (h(p \<mapsto> \<lparr>rc = 1, elems = WordElems xs\<rparr>))
           \<lparr>tag = 2, u = \<lparr>data = Some p, dim0_size = dim0_size (u a)\<rparr>\<rparr>"
  using assms by (simp add: valid_def words_at_def)

lemma valid_copied_large:
  assumes "valid h a" and "tag a = 3" and "larges_at h (u a) = Some xs"
  shows "valid (h(p \<mapsto> \<lparr>rc = 1, elems = LargeElems xs\<rparr>))
           \<lparr>tag = 3, u = \<lparr>data = Some p, dim0_size = dim0_size (u a)\<rparr>\<rparr>"
  using assms by (simp add: valid_def larges_at_def)

lemma set_elsewhere:
  assumes "data (u a) \<noteq> data (u b)"
  shows "Hashmap_get (snd (Hashmap_set g b i v)) a j = Hashmap_get g a j"
proof (cases "data (u b)")
  case None
  then show ?thesis
    by (simp add: Hashmap_set_def Let_def put_elems_def split: option.splits)
next
  case (Some p)
  with assms have ne: "data (u a) \<noteq> Some p" by simp
  show ?thesis
  proof (cases "g p")
    case None
    with Some show ?thesis
      by (simp add: Hashmap_set_def Let_def put_elems_def split: option.splits)
  next
    case (Some blk)
    have "snd (Hashmap_set g b i v) = g \<or> (\<exists>es. snd (Hashmap_set g b i v) = g(p \<mapsto> blk\<lparr>elems := es\<rparr>))"
      using \<open>data (u b) = Some p\<close> Some
      by (auto simp: Hashmap_set_def Let_def put_elems_def split: option.splits)
    then show ?thesis using get_fresh [OF ne] by auto
  qed
qed

lemma copy_result:
  assumes "valid h a" and "place f \<notin> dom h"
  shows "\<exists>b h'. Hashmap_copy (Some f) a h = (Inr b, h') \<and> tag b = tag a \<and>
           u b = \<lparr>data = Some (place f), dim0_size = dim0_size (u a)\<rparr> \<and>
           valid h' a \<and> valid h' b \<and>
           (\<forall>i. Hashmap_get h' b i = Hashmap_get h a i) \<and>
           (\<forall>i. Hashmap_get h' a i = Hashmap_get h a i)"
proof -
  let ?p = "place f"
  have fresh: "h ?p = None" using assms(2) by auto
  have ne: "data (u a) \<noteq> Some ?p"
    using assms(1) fresh by (auto simp: valid_def split: option.splits)
  from valid_tag [OF assms(1)] consider "tag a = 1" | "tag a = 2" | "tag a = 3" by blast
  then show ?thesis
  proof cases
    case 1
    from copy_byte [OF assms(1) 1 assms(2)] obtain xs where
      xs: "bytes_at h (u a) = Some xs" and
      cp: "Hashmap_copy (Some f) a h =
       (Inr \<lparr>tag = 1, u = \<lparr>data = Some ?p, dim0_size = dim0_size (u a)\<rparr>\<rparr>,
        h(?p \<mapsto> \<lparr>rc = 1, elems = ByteElems xs\<rparr>))" by blast
    show ?thesis
      using cp 1 valid_fresh [OF assms(1) fresh] valid_copied_byte [OF assms(1) 1 xs]
        get_copied_byte [OF 1 xs] get_fresh [OF ne]
      by simp
  next
    case 2
    from copy_word [OF assms(1) 2 assms(2)] obtain xs where
      xs: "words_at h (u a) = Some xs" and
      cp: "Hashmap_copy (Some f) a h =
       (Inr \<lparr>tag = 2, u = \<lparr>data = Some ?p, dim0_size = dim0_size (u a)\<rparr>\<rparr>,
        h(?p \<mapsto> \<lparr>rc = 1, elems = WordElems xs\<rparr>))" by blast
    show ?thesis
      using cp 2 valid_fresh [OF assms(1) fresh] valid_copied_word [OF assms(1) 2 xs]
        get_copied_word [OF 2 xs] get_fresh [OF ne]
      by simp
  next
    case 3
    from copy_large [OF assms(1) 3 assms(2)] obtain xs where
      xs: "larges_at h (u a) = Some xs" and
      cp: "Hashmap_copy (Some f) a h =
       (Inr \<lparr>tag = 3, u = \<lparr>data = Some ?p, dim0_size = dim0_size (u a)\<rparr>\<rparr>,
        h(?p \<mapsto> \<lparr>rc = 1, elems = LargeElems xs\<rparr>))" by blast
    show ?thesis
      using cp 3 valid_fresh [OF assms(1) fresh] valid_copied_large [OF assms(1) 3 xs]
        get_copied_large [OF 3 xs] get_fresh [OF ne]
      by simp
  qed
qed

subsection \<open>What the line reader returns\<close>

lemma read_chars_line:
  "newline \<notin> set xs \<Longrightarrow> length xs < k \<Longrightarrow> read_chars k (xs @ newline # ys) = xs @ [newline]"
proof (induction xs arbitrary: k)
  case Nil
  then show ?case by (cases k) simp_all
next
  case (Cons x xs)
  then show ?case by (cases k) auto
qed

lemma strlen_line:
  "NUL \<notin> set xs \<Longrightarrow> strlen (xs @ [newline]) = Suc (length xs)"
  by (induction xs) (auto simp: strlen_def newline_def NUL_def)

lemma fgets_line:
  assumes "newline \<notin> set xs" and "int (length xs) < count - 1"
  shows "fgets count \<lparr>pending = xs @ newline # ys, broken = b, eof = e\<rparr> =
           (Some (xs @ [newline]), \<lparr>pending = ys, broken = b, eof = e\<rparr>)"
proof -
  from assms(2) have "length xs < nat (count - 1)" by simp
  from read_chars_line [OF assms(1) this]
  show ?thesis by (simp add: fgets_def Let_def)
qed

lemma fx_fgets_short_line:
  assumes "newline \<notin> set xs" and "NUL \<notin> set xs" and "length xs < 126"
  shows "fx_fgets mem \<lparr>pending = xs @ newline # ys, broken = b, eof = e\<rparr> =
           Some (Inr (xs @ [newline]), \<lparr>pending = ys, broken = b, eof = e\<rparr>)"
proof -
  from assms(3) have "int (length xs) < 128 - 1" by simp
  from fgets_line [OF assms(1) this]
  have g: "fgets 128 \<lparr>pending = xs @ newline # ys, broken = b, eof = e\<rparr> =
             (Some (xs @ [newline]), \<lparr>pending = ys, broken = b, eof = e\<rparr>)" .
  have l: "fx_fgets_loop mem 128 0 [] \<lparr>pending = xs @ newline # ys, broken = b, eof = e\<rparr> =
             Some (None, int (Suc (length xs)), xs @ [newline],
                   \<lparr>pending = ys, broken = b, eof = e\<rparr>)"
    using assms(3) by (subst fx_fgets_loop.simps) (simp add: g strlen_line [OF assms(2)])
  show ?thesis
    by (simp add: fx_fgets_def FX_FILE_ROW_BUFSIZE_def l fx_cstr2str_def)
qed

section \<open>Claims\<close>

subsection \<open>Construction\<close>

text \<open>
  C1. When the allocation succeeds, construction with a requested size of at most 256
  yields the Narrow tier (tag 1, storage of 1-byte unsigned cells), with a size above 256
  and at most 65536 the Medium tier (tag 2, 2-byte unsigned cells), and with a larger size
  the Wide tier (tag 3, native-word signed cells); so for the sizes 0, 1, 256, 257, 65536,
  65537 and 10000000.
\<close>

theorem makeindex_selects_tier:
  "\<exists>idx h'. Hashmap_makeindex (Some f) size_0 h = (Inr idx, h') \<and>
     (if sint size_0 \<le> 256 then tag idx = 1 \<and> bytes_at h' (u idx) \<noteq> None
      else if sint size_0 \<le> 65536 then tag idx = 2 \<and> words_at h' (u idx) \<noteq> None
      else tag idx = 3 \<and> larges_at h' (u idx) \<noteq> None)"
proof -
  consider "sint size_0 \<le> 256" | "\<not> sint size_0 \<le> 256" "sint size_0 \<le> 65536"
    | "\<not> sint size_0 \<le> 65536" by linarith
  then show ?thesis
  proof cases
    case 1
    then show ?thesis by (simp add: makeindex_byte bytes_at_def)
  next
    case 2
    then show ?thesis by (simp add: makeindex_word words_at_def)
  next
    case 3
    then show ?thesis by (simp add: makeindex_large larges_at_def)
  qed
qed

theorem makeindex_selects_tier_witness:
  "(\<exists>idx h'. Hashmap_makeindex (Some \<lparr>place = 0, junk = \<lambda>k. 9\<rparr>) 0 Map.empty = (Inr idx, h') \<and> tag idx = 1) \<and>
   (\<exists>idx h'. Hashmap_makeindex (Some \<lparr>place = 0, junk = \<lambda>k. 9\<rparr>) 1 Map.empty = (Inr idx, h') \<and> tag idx = 1) \<and>
   (\<exists>idx h'. Hashmap_makeindex (Some \<lparr>place = 0, junk = \<lambda>k. 9\<rparr>) 256 Map.empty = (Inr idx, h') \<and> tag idx = 1) \<and>
   (\<exists>idx h'. Hashmap_makeindex (Some \<lparr>place = 0, junk = \<lambda>k. 9\<rparr>) 257 Map.empty = (Inr idx, h') \<and> tag idx = 2) \<and>
   (\<exists>idx h'. Hashmap_makeindex (Some \<lparr>place = 0, junk = \<lambda>k. 9\<rparr>) 65536 Map.empty = (Inr idx, h') \<and> tag idx = 2) \<and>
   (\<exists>idx h'. Hashmap_makeindex (Some \<lparr>place = 0, junk = \<lambda>k. 9\<rparr>) 65537 Map.empty = (Inr idx, h') \<and> tag idx = 3) \<and>
   (\<exists>idx h'. Hashmap_makeindex (Some \<lparr>place = 0, junk = \<lambda>k. 9\<rparr>) 10000000 Map.empty = (Inr idx, h') \<and> tag idx = 3)"
  using makeindex_selects_tier [of "\<lparr>place = 0, junk = \<lambda>k. 9\<rparr>" 0 Map.empty]
    makeindex_selects_tier [of "\<lparr>place = 0, junk = \<lambda>k. 9\<rparr>" 1 Map.empty]
    makeindex_selects_tier [of "\<lparr>place = 0, junk = \<lambda>k. 9\<rparr>" 256 Map.empty]
    makeindex_selects_tier [of "\<lparr>place = 0, junk = \<lambda>k. 9\<rparr>" 257 Map.empty]
    makeindex_selects_tier [of "\<lparr>place = 0, junk = \<lambda>k. 9\<rparr>" 65536 Map.empty]
    makeindex_selects_tier [of "\<lparr>place = 0, junk = \<lambda>k. 9\<rparr>" 65537 Map.empty]
    makeindex_selects_tier [of "\<lparr>place = 0, junk = \<lambda>k. 9\<rparr>" 10000000 Map.empty]
  by simp blast

subsection \<open>Access\<close>

text \<open>
  C2. On a valid container, for every index \<open>i\<close> with \<open>0 \<le> i < length\<close> and every value,
  \<open>set(i, value)\<close> succeeds and \<open>get(i)\<close> then returns the value truncated to the cell
  width of the tier: \<open>value mod 2^8\<close> on the Narrow tier (tag 1), \<open>value mod 2^16\<close> on
  the Medium tier (tag 2), the value itself on the Wide tier (tag 3).
\<close>

theorem set_then_get_truncates:
  assumes "valid h idx" and "Hashmap_size idx = Inr n"
    and "0 \<le> sint i" and "sint i < sint n"
  shows "\<exists>h' r. Hashmap_set h idx i v = (Inr (), h') \<and> Hashmap_get h' idx i = Inr r \<and>
           sint r = (if tag idx = 1 then sint v mod 2 ^ 8
                     else if tag idx = 2 then sint v mod 2 ^ 16
                     else sint v)"
proof -
  from assms(2) have n: "n = dim0_size (u idx)" by (simp add: size_Inr)
  with assms(3,4) have chk: "FX_CHKIDX1 (u idx) i" by (simp add: FX_CHKIDX1_def)
  from valid_tag [OF assms(1)] consider "tag idx = 1" | "tag idx = 2" | "tag idx = 3" by blast
  then show ?thesis
  proof cases
    case 1
    from set_get_byte [OF assms(1) chk 1, of v] show ?thesis
      using 1 by (auto simp: sint_widen8 uint_narrow8)
  next
    case 2
    from set_get_word [OF assms(1) chk 2, of v] show ?thesis
      using 2 by (auto simp: sint_widen16 uint_narrow16)
  next
    case 3
    from set_get_large [OF assms(1) chk 3, of v] show ?thesis
      using 3 by auto
  qed
qed

theorem set_then_get_truncates_witness:
  "(\<exists>h' r. Hashmap_set [7 \<mapsto> \<lparr>rc = 1, elems = ByteElems (replicate 256 5)\<rparr>]
              \<lparr>tag = 1, u = \<lparr>data = Some 7, dim0_size = 256\<rparr>\<rparr> 0 300 = (Inr (), h') \<and>
            Hashmap_get h' \<lparr>tag = 1, u = \<lparr>data = Some 7, dim0_size = 256\<rparr>\<rparr> 0 = Inr r \<and>
            sint r = 44) \<and>
   (\<exists>h' r. Hashmap_set [7 \<mapsto> \<lparr>rc = 1, elems = WordElems (replicate 300 0)\<rparr>]
              \<lparr>tag = 2, u = \<lparr>data = Some 7, dim0_size = 300\<rparr>\<rparr> 299 70000 = (Inr (), h') \<and>
            Hashmap_get h' \<lparr>tag = 2, u = \<lparr>data = Some 7, dim0_size = 300\<rparr>\<rparr> 299 = Inr r \<and>
            sint r = 4464) \<and>
   (\<exists>h' r. Hashmap_set [7 \<mapsto> \<lparr>rc = 1, elems = WordElems (replicate 300 0)\<rparr>]
              \<lparr>tag = 2, u = \<lparr>data = Some 7, dim0_size = 300\<rparr>\<rparr> 299 65000 = (Inr (), h') \<and>
            Hashmap_get h' \<lparr>tag = 2, u = \<lparr>data = Some 7, dim0_size = 300\<rparr>\<rparr> 299 = Inr r \<and>
            sint r = 65000)"
proof -
  let ?hb = "[7 \<mapsto> \<lparr>rc = 1, elems = ByteElems (replicate 256 5)\<rparr>] :: heap"
  let ?b = "\<lparr>tag = 1, u = \<lparr>data = Some 7, dim0_size = 256\<rparr>\<rparr>"
  let ?hw = "[7 \<mapsto> \<lparr>rc = 1, elems = WordElems (replicate 300 0)\<rparr>] :: heap"
  let ?w = "\<lparr>tag = 2, u = \<lparr>data = Some 7, dim0_size = 300\<rparr>\<rparr>"
  have vb: "valid ?hb ?b" by (simp add: valid_def bytes_at_def)
  have sb: "Hashmap_size ?b = Inr 256" by (simp add: Hashmap_size_def FX_ARR_SIZE_def)
  have vw: "valid ?hw ?w" by (simp add: valid_def words_at_def)
  have sw: "Hashmap_size ?w = Inr 300" by (simp add: Hashmap_size_def FX_ARR_SIZE_def)
  show ?thesis
    using set_then_get_truncates [OF vb sb, of 0 300]
      set_then_get_truncates [OF vw sw, of 299 70000]
      set_then_get_truncates [OF vw sw, of 299 65000]
    by simp
qed

text \<open>
  C3. On a container with a valid tier (one whose \<open>size\<close> succeeds, with length \<open>n\<close>),
  \<open>get(i)\<close> and \<open>set(i, v)\<close> with \<open>i < 0\<close> or \<open>i \<ge> n\<close> fail with the out-of-range
  condition, and the heap after the failed \<open>set\<close> is the heap before it: no cell,
  reference count or array is changed. (\<open>get\<close> writes nothing, and neither call
  writes to the struct that holds the tag and the length.)
\<close>

theorem out_of_range_fails:
  assumes "Hashmap_size idx = Inr n" and "sint i < 0 \<or> sint n \<le> sint i"
  shows "Hashmap_get h idx i = Inl FX_EXN_OutOfRangeError \<and>
         Hashmap_set h idx i v = (Inl FX_EXN_OutOfRangeError, h)"
proof -
  from assms(1) have t: "tag idx = 1 \<or> tag idx = 2 \<or> tag idx = 3"
    and n: "n = dim0_size (u idx)" by (simp_all add: size_Inr)
  from assms(2) n have chk: "\<not> FX_CHKIDX1 (u idx) i" by (auto simp: FX_CHKIDX1_def)
  from t chk show ?thesis by (auto simp: Hashmap_get_def Hashmap_set_def)
qed

theorem out_of_range_fails_witness:
  "Hashmap_get [7 \<mapsto> \<lparr>rc = 1, elems = WordElems (replicate 300 3)\<rparr>]
      \<lparr>tag = 2, u = \<lparr>data = Some 7, dim0_size = 300\<rparr>\<rparr> 300 = Inl FX_EXN_OutOfRangeError \<and>
   Hashmap_set [7 \<mapsto> \<lparr>rc = 1, elems = WordElems (replicate 300 3)\<rparr>]
      \<lparr>tag = 2, u = \<lparr>data = Some 7, dim0_size = 300\<rparr>\<rparr> 300 5 =
     (Inl FX_EXN_OutOfRangeError, [7 \<mapsto> \<lparr>rc = 1, elems = WordElems (replicate 300 3)\<rparr>]) \<and>
   Hashmap_get [7 \<mapsto> \<lparr>rc = 1, elems = WordElems (replicate 300 3)\<rparr>]
      \<lparr>tag = 2, u = \<lparr>data = Some 7, dim0_size = 300\<rparr>\<rparr> (- 1) = Inl FX_EXN_OutOfRangeError \<and>
   Hashmap_set [7 \<mapsto> \<lparr>rc = 1, elems = WordElems (replicate 300 3)\<rparr>]
      \<lparr>tag = 2, u = \<lparr>data = Some 7, dim0_size = 300\<rparr>\<rparr> (- 1) 5 =
     (Inl FX_EXN_OutOfRangeError, [7 \<mapsto> \<lparr>rc = 1, elems = WordElems (replicate 300 3)\<rparr>])"
proof -
  let ?w = "\<lparr>tag = 2, u = \<lparr>data = Some 7, dim0_size = 300\<rparr>\<rparr>"
  have sw: "Hashmap_size ?w = Inr 300" by (simp add: Hashmap_size_def FX_ARR_SIZE_def)
  have hi: "sint (300 :: int_t) < 0 \<or> sint (300 :: int_t) \<le> sint (300 :: int_t)" by simp
  have lo: "sint (- 1 :: int_t) < 0 \<or> sint (300 :: int_t) \<le> sint (- 1 :: int_t)" by simp
  show ?thesis
    using out_of_range_fails [OF sw hi] out_of_range_fails [OF sw lo] by simp
qed

subsection \<open>Duplication\<close>

text \<open>
  C4. For a valid container \<open>a\<close>, \<open>copy\<close> (when its allocation succeeds, in storage that
  was not in use) returns a container \<open>b\<close> of the same tier and the same size whose
  \<open>get\<close> agrees with that of \<open>a\<close> at every index, and leaves \<open>a\<close> as it was. The two
  arrays point to different storage, so from any heap whatever a \<open>set\<close> on \<open>b\<close> changes
  no result of \<open>get\<close> on \<open>a\<close>, and a \<open>set\<close> on \<open>a\<close> changes no result of \<open>get\<close> on \<open>b\<close>.
\<close>

theorem copy_is_independent:
  assumes "valid h a" and "place f \<notin> dom h"
  shows "\<exists>b h'. Hashmap_copy (Some f) a h = (Inr b, h') \<and>
     tag b = tag a \<and> Hashmap_size b = Hashmap_size a \<and>
     valid h' a \<and> valid h' b \<and>
     (\<forall>i. Hashmap_get h' b i = Hashmap_get h a i) \<and>
     (\<forall>i. Hashmap_get h' a i = Hashmap_get h a i) \<and>
     data (u b) \<noteq> data (u a) \<and>
     (\<forall>g i v j. Hashmap_get (snd (Hashmap_set g b i v)) a j = Hashmap_get g a j) \<and>
     (\<forall>g i v j. Hashmap_get (snd (Hashmap_set g a i v)) b j = Hashmap_get g b j)"
proof -
  have fresh: "h (place f) = None" using assms(2) by auto
  have ne: "data (u a) \<noteq> Some (place f)"
    using assms(1) fresh by (auto simp: valid_def split: option.splits)
  from copy_result [OF assms] obtain b h' where
    cp: "Hashmap_copy (Some f) a h = (Inr b, h')"
    and tg: "tag b = tag a" and arr: "u b = \<lparr>data = Some (place f), dim0_size = dim0_size (u a)\<rparr>"
    and va: "valid h' a" and vb: "valid h' b"
    and same: "\<forall>i. Hashmap_get h' b i = Hashmap_get h a i"
    and keep: "\<forall>i. Hashmap_get h' a i = Hashmap_get h a i" by blast
  have sz: "Hashmap_size b = Hashmap_size a"
    using tg arr by (simp add: Hashmap_size_def Let_def FX_ARR_SIZE_def)
  have d: "data (u b) \<noteq> data (u a)" using arr ne by auto
  from d have i1: "\<forall>g i v j. Hashmap_get (snd (Hashmap_set g b i v)) a j = Hashmap_get g a j"
    by (simp add: set_elsewhere)
  from d have i2: "\<forall>g i v j. Hashmap_get (snd (Hashmap_set g a i v)) b j = Hashmap_get g b j"
    by (simp add: set_elsewhere)
  from cp tg sz va vb same keep d i1 i2 show ?thesis by blast
qed

theorem copy_is_independent_witness:
  "\<exists>b h'. Hashmap_copy (Some \<lparr>place = 8, junk = \<lambda>k. 77\<rparr>)
             \<lparr>tag = 2, u = \<lparr>data = Some 7, dim0_size = 3\<rparr>\<rparr>
             [7 \<mapsto> \<lparr>rc = 1, elems = WordElems [10, 20, 30]\<rparr>] = (Inr b, h') \<and>
     tag b = 2 \<and> Hashmap_size b = Inr 3 \<and> Hashmap_get h' b 1 = Inr 20 \<and>
     Hashmap_get (snd (Hashmap_set h' b 1 99)) \<lparr>tag = 2, u = \<lparr>data = Some 7, dim0_size = 3\<rparr>\<rparr> 1 = Inr 20 \<and>
     Hashmap_get (snd (Hashmap_set h' \<lparr>tag = 2, u = \<lparr>data = Some 7, dim0_size = 3\<rparr>\<rparr> 1 99)) b 1 = Inr 20"
proof -
  let ?h = "[7 \<mapsto> \<lparr>rc = 1, elems = WordElems [10, 20, 30]\<rparr>] :: heap"
  let ?a = "\<lparr>tag = 2, u = \<lparr>data = Some 7, dim0_size = 3\<rparr>\<rparr>"
  let ?f = "\<lparr>place = 8, junk = \<lambda>k. 77\<rparr>"
  have v: "valid ?h ?a" by (simp add: valid_def words_at_def)
  have fr: "place ?f \<notin> dom ?h" by simp
  have g: "Hashmap_get ?h ?a 1 = Inr 20"
    by (simp add: Hashmap_get_def FX_CHKIDX1_def words_at_def FX_PTR_1D_def)
  have sa: "Hashmap_size ?a = Inr 3" by (simp add: Hashmap_size_def FX_ARR_SIZE_def)
  from copy_is_independent [OF v fr] obtain b h' where
    cp: "Hashmap_copy (Some ?f) ?a ?h = (Inr b, h')"
    and tg: "tag b = tag ?a" and sz: "Hashmap_size b = Hashmap_size ?a"
    and same: "\<forall>i. Hashmap_get h' b i = Hashmap_get ?h ?a i"
    and keep: "\<forall>i. Hashmap_get h' ?a i = Hashmap_get ?h ?a i"
    and i1: "\<forall>g i v j. Hashmap_get (snd (Hashmap_set g b i v)) ?a j = Hashmap_get g ?a j"
    and i2: "\<forall>g i v j. Hashmap_get (snd (Hashmap_set g ?a i v)) b j = Hashmap_get g b j"
    by blast
  have 1: "tag b = 2" using tg by simp
  have 2: "Hashmap_size b = Inr 3" using sz sa by simp
  have 3: "Hashmap_get h' b 1 = Inr 20" using same g by simp
  have 4: "Hashmap_get (snd (Hashmap_set h' b 1 99)) ?a 1 = Inr 20" using i1 keep g by simp
  have 5: "Hashmap_get (snd (Hashmap_set h' ?a 1 99)) b 1 = Inr 20" using i2 3 by simp
  from cp 1 2 3 4 5 show ?thesis by blast
qed

subsection \<open>Unknown tags\<close>

text \<open>
  C5. On a container whose tag is none of 1, 2 and 3, each of \<open>size\<close>, \<open>get\<close>, \<open>set\<close>
  and \<open>copy\<close> fails with the no-match condition \<^verbatim>\<open>FX_EXN_NoMatchError\<close> (the spec's
  InvariantViolation) and leaves the heap as it was; none falls back to a tier.
\<close>

theorem unknown_tag_fails:
  assumes "tag idx \<noteq> 1" and "tag idx \<noteq> 2" and "tag idx \<noteq> 3"
  shows "Hashmap_size idx = Inl FX_EXN_NoMatchError \<and>
         Hashmap_get h idx i = Inl FX_EXN_NoMatchError \<and>
         Hashmap_set h idx i v = (Inl FX_EXN_NoMatchError, h) \<and>
         Hashmap_copy al idx h = (Inl FX_EXN_NoMatchError, h)"
  using assms
  by (simp add: Hashmap_size_def Hashmap_get_def Hashmap_set_def Hashmap_copy_def)

theorem unknown_tag_fails_witness:
  "Hashmap_size \<lparr>tag = 0, u = null_arr\<rparr> = Inl FX_EXN_NoMatchError \<and>
   Hashmap_get Map.empty \<lparr>tag = 0, u = null_arr\<rparr> 0 = Inl FX_EXN_NoMatchError \<and>
   Hashmap_set Map.empty \<lparr>tag = 0, u = null_arr\<rparr> 0 1 = (Inl FX_EXN_NoMatchError, Map.empty) \<and>
   Hashmap_copy None \<lparr>tag = 0, u = null_arr\<rparr> Map.empty = (Inl FX_EXN_NoMatchError, Map.empty)"
  using unknown_tag_fails [of "\<lparr>tag = 0, u = null_arr\<rparr>" Map.empty 0 1 None] by simp

subsection \<open>Initial contents\<close>

text \<open>
  C6. Right after a successful construction with a requested size above 0, \<open>get(i)\<close>
  returns 0 for every index \<open>0 \<le> i < size\<close>, whichever tier was selected and whatever
  the fresh storage held.
\<close>

theorem makeindex_zero_cells:
  assumes "0 < sint n"
  shows "\<exists>idx h'. Hashmap_makeindex (Some f) n h = (Inr idx, h') \<and>
           (\<forall>i. 0 \<le> sint i \<and> sint i < sint n \<longrightarrow> Hashmap_get h' idx i = Inr 0)"
proof -
  consider "sint n \<le> 256" | "\<not> sint n \<le> 256" "sint n \<le> 65536"
    | "\<not> sint n \<le> 65536" by linarith
  then show ?thesis
  proof cases
    case 1
    then show ?thesis
      by (simp add: makeindex_byte Hashmap_get_def FX_CHKIDX1_def bytes_at_def FX_PTR_1D_def)
  next
    case 2
    then show ?thesis
      by (simp add: makeindex_word Hashmap_get_def FX_CHKIDX1_def words_at_def FX_PTR_1D_def)
  next
    case 3
    then show ?thesis
      by (simp add: makeindex_large Hashmap_get_def FX_CHKIDX1_def larges_at_def FX_PTR_1D_def)
  qed
qed

theorem makeindex_zero_cells_witness:
  "\<exists>idx h'. Hashmap_makeindex (Some \<lparr>place = 4, junk = \<lambda>k. 77\<rparr>) 300 Map.empty = (Inr idx, h') \<and>
      Hashmap_get h' idx 0 = Inr 0 \<and> Hashmap_get h' idx 299 = Inr 0"
proof -
  have pos: "0 < sint (300 :: int_t)" by simp
  from makeindex_zero_cells [OF pos, of "\<lparr>place = 4, junk = \<lambda>k. 77\<rparr>" Map.empty]
  obtain idx h' where
    mk: "Hashmap_makeindex (Some \<lparr>place = 4, junk = \<lambda>k. 77\<rparr>) 300 Map.empty = (Inr idx, h')"
    and z: "\<forall>i. 0 \<le> sint i \<and> sint i < sint (300 :: int_t) \<longrightarrow> Hashmap_get h' idx i = Inr 0"
    by blast
  from z have "Hashmap_get h' idx 0 = Inr 0" "Hashmap_get h' idx 299 = Inr 0" by simp_all
  with mk show ?thesis by blast
qed

subsection \<open>Frame of set\<close>

text \<open>
  C7. A successful \<open>set(i, value)\<close> changes one cell in place: \<open>get\<close> at every other
  index returns what it returned before; storage at every other address is untouched;
  no storage is allocated or released; the storage of the container stays where it is,
  with the same reference count and the same number of cells; and a valid container
  stays valid, so its tag and length still describe its storage. (The struct that holds
  the tag and the length is only read.)
\<close>

theorem set_changes_one_cell:
  assumes "Hashmap_set h idx i v = (Inr (), h')"
  shows "(\<forall>j. j \<noteq> i \<longrightarrow> Hashmap_get h' idx j = Hashmap_get h idx j) \<and>
         (\<forall>a. data (u idx) \<noteq> Some a \<longrightarrow> h' a = h a) \<and>
         dom h' = dom h \<and>
         (\<forall>a b. h a = Some b \<longrightarrow>
            (\<exists>b'. h' a = Some b' \<and> rc b' = rc b \<and>
                  elems_count (elems b') = elems_count (elems b))) \<and>
         cell_count h' (u idx) = cell_count h (u idx) \<and>
         (valid h idx \<longrightarrow> valid h' idx)"
proof -
  from set_Inr_shape [OF assms] obtain a b es where
    a: "data (u idx) = Some a" and b: "h a = Some b" and h': "h' = h(a \<mapsto> b\<lparr>elems := es\<rparr>)"
    and n: "elems_count es = elems_count (elems b)" by blast
  have 1: "\<forall>j. j \<noteq> i \<longrightarrow> Hashmap_get h' idx j = Hashmap_get h idx j"
    using set_other_cells [OF assms] by blast
  have 2: "\<forall>a. data (u idx) \<noteq> Some a \<longrightarrow> h' a = h a"
    using a h' by auto
  have 3: "dom h' = dom h" using b h' by auto
  have 4: "\<forall>a b. h a = Some b \<longrightarrow>
            (\<exists>b'. h' a = Some b' \<and> rc b' = rc b \<and>
                  elems_count (elems b') = elems_count (elems b))"
    using b h' n by auto
  have 5: "cell_count h' (u idx) = cell_count h (u idx)"
    using set_cell_count [of h idx i v "u idx"] assms by simp
  have 6: "valid h idx \<longrightarrow> valid h' idx"
    using set_valid [of h idx i v] assms by simp
  from 1 2 3 4 5 6 show ?thesis by blast
qed

theorem set_changes_one_cell_witness:
  "Hashmap_set [7 \<mapsto> \<lparr>rc = 1, elems = WordElems [10, 20, 30]\<rparr>]
      \<lparr>tag = 2, u = \<lparr>data = Some 7, dim0_size = 3\<rparr>\<rparr> 1 99 =
     (Inr (), [7 \<mapsto> \<lparr>rc = 1, elems = WordElems [10, 99, 30]\<rparr>]) \<and>
   Hashmap_get [7 \<mapsto> \<lparr>rc = 1, elems = WordElems [10, 99, 30]\<rparr>]
      \<lparr>tag = 2, u = \<lparr>data = Some 7, dim0_size = 3\<rparr>\<rparr> 2 =
   Hashmap_get [7 \<mapsto> \<lparr>rc = 1, elems = WordElems [10, 20, 30]\<rparr>]
      \<lparr>tag = 2, u = \<lparr>data = Some 7, dim0_size = 3\<rparr>\<rparr> 2 \<and>
   cell_count [7 \<mapsto> \<lparr>rc = 1, elems = WordElems [10, 99, 30]\<rparr>] \<lparr>data = Some 7, dim0_size = 3\<rparr> =
   cell_count [7 \<mapsto> \<lparr>rc = 1, elems = WordElems [10, 20, 30]\<rparr>] \<lparr>data = Some 7, dim0_size = 3\<rparr>"
proof -
  let ?h = "[7 \<mapsto> \<lparr>rc = 1, elems = WordElems [10, 20, 30]\<rparr>] :: heap"
  let ?h' = "[7 \<mapsto> \<lparr>rc = 1, elems = WordElems [10, 99, 30]\<rparr>] :: heap"
  let ?w = "\<lparr>tag = 2, u = \<lparr>data = Some 7, dim0_size = 3\<rparr>\<rparr>"
  have s: "Hashmap_set ?h ?w 1 99 = (Inr (), ?h')"
    by (simp add: Hashmap_set_def FX_CHKIDX1_def words_at_def put_elems_def)
  have ne: "(2 :: int_t) \<noteq> 1" by simp
  from set_changes_one_cell [OF s] ne s show ?thesis by simp
qed

subsection \<open>Size\<close>

text \<open>
  C8. \<open>size\<close> of a constructed container returns the requested size, whichever tier
  was selected. \<open>size\<close> reads only the struct of the container, which \<open>get\<close> and \<open>set\<close>
  never write; and after any sequence of \<open>get\<close> and \<open>set\<close> calls the container is still
  valid and its storage still has exactly that many cells.
\<close>

theorem size_is_fixed_length:
  "\<exists>idx h0. Hashmap_makeindex (Some f) n h = (Inr idx, h0) \<and> Hashmap_size idx = Inr n \<and>
     (0 \<le> sint n \<longrightarrow>
        (\<forall>cs. valid (run h0 idx cs) idx \<and>
              cell_count (run h0 idx cs) (u idx) = Some (nat (sint n))))"
proof -
  from makeindex_size [of f n h] obtain idx h0 where
    mk: "Hashmap_makeindex (Some f) n h = (Inr idx, h0)" and sz: "Hashmap_size idx = Inr n"
    by blast
  have "\<forall>cs. valid (run h0 idx cs) idx \<and>
              cell_count (run h0 idx cs) (u idx) = Some (nat (sint n))" if "0 \<le> sint n"
    using makeindex_valid [OF that mk] by (simp add: run_valid run_cell_count)
  with mk sz show ?thesis by blast
qed

theorem size_is_fixed_length_witness:
  "\<exists>idx h0. Hashmap_makeindex (Some \<lparr>place = 4, junk = \<lambda>k. 77\<rparr>) 300 Map.empty = (Inr idx, h0) \<and>
      Hashmap_size idx = Inr 300 \<and>
      cell_count (run h0 idx [Set 5 6, Get 5, Set 300 1, Set 299 70000]) (u idx) = Some 300"
proof -
  from size_is_fixed_length [of "\<lparr>place = 4, junk = \<lambda>k. 77\<rparr>" 300 Map.empty]
  obtain idx h0 where
    mk: "Hashmap_makeindex (Some \<lparr>place = 4, junk = \<lambda>k. 77\<rparr>) 300 Map.empty = (Inr idx, h0)"
    and sz: "Hashmap_size idx = Inr 300"
    and inv: "0 \<le> sint (300 :: int_t) \<longrightarrow>
        (\<forall>cs. valid (run h0 idx cs) idx \<and>
              cell_count (run h0 idx cs) (u idx) = Some (nat (sint (300 :: int_t))))"
    by blast
  from inv have "cell_count (run h0 idx [Set 5 6, Get 5, Set 300 1, Set 299 70000]) (u idx) = Some 300"
    by (simp del: run.simps)
  with mk sz show ?thesis by blast
qed

subsection \<open>Reading a line\<close>

text \<open>
  C9. \<^verbatim>\<open>fx_fgets\<close> is to read until a newline or the end of the stream and to return
  the accumulated text. A line shorter than 126 characters is read so
  (\<open>fx_fgets_short_line\<close>). A line of 126 characters and its newline fills the first
  \<^verbatim>\<open>fgets\<close> call exactly (\<open>blocksz = count - 1\<close>), the test \<^verbatim>\<open>blocksz < count-1\<close> does
  not see the newline, and the loop reads on: the call returns that line and the next
  one as one text.
\<close>

theorem fx_fgets_reads_two_lines:
  "fx_fgets (\<lambda>n. True)
     \<lparr>pending = replicate 126 CHR ''a'' @ newline # ''b'' @ newline # ''rest'',
      broken = False, eof = False\<rparr> =
   Some (Inr (replicate 126 CHR ''a'' @ [newline] @ ''b'' @ [newline]),
         \<lparr>pending = ''rest'', broken = False, eof = False\<rparr>)"
proof -
  let ?a = "replicate 126 CHR ''a''"
  have na: "newline \<notin> set ?a" "NUL \<notin> set ?a" by (simp_all add: newline_def NUL_def)
  have nb: "newline \<notin> set ''b''" "NUL \<notin> set ''b''" by (simp_all add: newline_def NUL_def)
  have g1: "fgets 128 \<lparr>pending = ?a @ newline # ''b'' @ newline # ''rest'', broken = False, eof = False\<rparr> =
            (Some (?a @ [newline]), \<lparr>pending = ''b'' @ newline # ''rest'', broken = False, eof = False\<rparr>)"
    by (rule fgets_line [OF na(1)]) simp
  have g2: "fgets 65 \<lparr>pending = ''b'' @ newline # ''rest'', broken = False, eof = False\<rparr> =
            (Some (''b'' @ [newline]), \<lparr>pending = ''rest'', broken = False, eof = False\<rparr>)"
    by (rule fgets_line [OF nb(1)]) simp
  have s1: "strlen (?a @ [newline]) = 127" using strlen_line [OF na(2)] by simp
  have s2: "strlen (''b'' @ [newline]) = 2" using strlen_line [OF nb(2)] by simp
  have l2: "fx_fgets_loop (\<lambda>n. True) 192 127 (?a @ [newline])
              \<lparr>pending = ''b'' @ newline # ''rest'', broken = False, eof = False\<rparr> =
            Some (None, 129, ?a @ [newline] @ ''b'' @ [newline],
                  \<lparr>pending = ''rest'', broken = False, eof = False\<rparr>)"
    by (subst fx_fgets_loop.simps) (simp add: g2 [simplified] s2 [simplified])
  have l1: "fx_fgets_loop (\<lambda>n. True) 128 0 []
              \<lparr>pending = ?a @ newline # ''b'' @ newline # ''rest'', broken = False, eof = False\<rparr> =
            Some (None, 129, ?a @ [newline] @ ''b'' @ [newline],
                  \<lparr>pending = ''rest'', broken = False, eof = False\<rparr>)"
    by (subst fx_fgets_loop.simps) (simp add: g1 [simplified] s1 [simplified] l2 [simplified])
  show ?thesis
    by (simp add: fx_fgets_def FX_FILE_ROW_BUFSIZE_def l1 [simplified] fx_cstr2str_def)
qed

subsection \<open>Range of the narrow tiers\<close>

text \<open>
  C10. In every heap, a successful \<open>get\<close> on the Narrow tier (tag 1) returns a value
  in \<open>[0, 255]\<close> and on the Medium tier (tag 2) a value in \<open>[0, 65535]\<close>, so that a
  negative result can only come from the Wide tier (tag 3). On a valid container of the
  Narrow or Medium tier, \<open>set(j, v)\<close> with a negative \<open>v\<close> at an index in bounds, and then
  \<open>get(j)\<close>, yields the non-negative residue of \<open>v\<close> modulo \<open>2^8\<close> or \<open>2^16\<close>.
\<close>

theorem narrow_cells_never_negative:
  "(\<forall>r. Hashmap_get h idx i = Inr r \<longrightarrow>
      (tag idx = 1 \<longrightarrow> 0 \<le> sint r \<and> sint r \<le> 255) \<and>
      (tag idx = 2 \<longrightarrow> 0 \<le> sint r \<and> sint r \<le> 65535) \<and>
      (sint r < 0 \<longrightarrow> tag idx = 3)) \<and>
   (valid h idx \<and> tag idx \<noteq> 3 \<and> 0 \<le> sint j \<and> sint j < sint (dim0_size (u idx)) \<and> sint v < 0 \<longrightarrow>
      (\<exists>h' r. Hashmap_set h idx j v = (Inr (), h') \<and> Hashmap_get h' idx j = Inr r \<and>
         0 \<le> sint r \<and> sint r = sint v mod (if tag idx = 1 then 2 ^ 8 else 2 ^ 16)))"
proof (intro conjI allI impI)
  fix r assume g: "Hashmap_get h idx i = Inr r"
  { assume "tag idx = 1" with g show "0 \<le> sint r" "sint r \<le> 255"
      using get_byte_range by blast+ }
  { assume "tag idx = 2" with g show "0 \<le> sint r" "sint r \<le> 65535"
      using get_word_range by blast+ }
  { assume neg: "sint r < 0"
    from g have "tag idx = 1 \<or> tag idx = 2 \<or> tag idx = 3"
      by (auto simp: Hashmap_get_def Let_def split: if_splits)
    with neg g get_byte_range get_word_range show "tag idx = 3" by fastforce }
next
  assume a: "valid h idx \<and> tag idx \<noteq> 3 \<and> 0 \<le> sint j \<and> sint j < sint (dim0_size (u idx)) \<and> sint v < 0"
  then have v: "valid h idx" and chk: "FX_CHKIDX1 (u idx) j" by (simp_all add: FX_CHKIDX1_def)
  from valid_tag [OF v] a consider "tag idx = 1" | "tag idx = 2" by blast
  then show "\<exists>h' r. Hashmap_set h idx j v = (Inr (), h') \<and> Hashmap_get h' idx j = Inr r \<and>
         0 \<le> sint r \<and> sint r = sint v mod (if tag idx = 1 then 2 ^ 8 else 2 ^ 16)"
  proof cases
    case 1
    from set_get_byte [OF v chk 1, of v] show ?thesis
      using 1 by (auto simp: sint_widen8 uint_narrow8)
  next
    case 2
    from set_get_word [OF v chk 2, of v] show ?thesis
      using 2 by (auto simp: sint_widen16 uint_narrow16)
  qed
qed

theorem narrow_cells_never_negative_witness:
  "(\<exists>r. Hashmap_get [7 \<mapsto> \<lparr>rc = 1, elems = ByteElems (replicate 256 5)\<rparr>]
          \<lparr>tag = 1, u = \<lparr>data = Some 7, dim0_size = 256\<rparr>\<rparr> 3 = Inr r \<and>
        0 \<le> sint r \<and> sint r \<le> 255) \<and>
   (\<exists>h' r. Hashmap_set [7 \<mapsto> \<lparr>rc = 1, elems = ByteElems (replicate 256 5)\<rparr>]
          \<lparr>tag = 1, u = \<lparr>data = Some 7, dim0_size = 256\<rparr>\<rparr> 0 (- 1) = (Inr (), h') \<and>
        Hashmap_get h' \<lparr>tag = 1, u = \<lparr>data = Some 7, dim0_size = 256\<rparr>\<rparr> 0 = Inr r \<and>
        sint r = 255)"
proof -
  let ?hb = "[7 \<mapsto> \<lparr>rc = 1, elems = ByteElems (replicate 256 5)\<rparr>] :: heap"
  let ?b = "\<lparr>tag = 1, u = \<lparr>data = Some 7, dim0_size = 256\<rparr>\<rparr>"
  have vb: "valid ?hb ?b" by (simp add: valid_def bytes_at_def)
  have g: "Hashmap_get ?hb ?b 3 = Inr 5"
    by (simp add: Hashmap_get_def FX_CHKIDX1_def bytes_at_def FX_PTR_1D_def)
  have neg: "sint (- 1 :: int_t) < 0" by simp
  show ?thesis
    using narrow_cells_never_negative [of ?hb ?b 3 0 "- 1"] vb g neg by simp blast
qed

end
